theory Spec2Isabelle
  imports Main "HOL-Library.Multiset"
begin

section \<open>Go values used by the tag mapping code\<close>

text \<open>
  A Go slice is either nil or holds a sequence of elements. The source tests
  \<^verbatim>\<open>v.Split != nil\<close>, so nil (\<open>None\<close>) and the empty non-nil slice (\<open>Some []\<close>) are
  kept apart. \<open>elems\<close> is what a \<^verbatim>\<open>range\<close> over the slice visits, \<open>append_slice\<close> is
  the built-in \<^verbatim>\<open>append\<close> with one element.
\<close>

type_synonym 'a slice = "'a list option"

fun elems :: "'a slice \<Rightarrow> 'a list" where
  "elems None = []"
| "elems (Some xs) = xs"

fun append_slice :: "'a slice \<Rightarrow> 'a \<Rightarrow> 'a slice" where
  "append_slice None x = Some [x]"
| "append_slice (Some xs) x = Some (xs @ [x])"

subsection \<open>strings.ToLower\<close>

text \<open>
  A Go string is a sequence of bytes. \<^verbatim>\<open>strings.ToLower\<close> has two paths: a string
  of ASCII bytes only has each byte in \<^verbatim>\<open>'A'..'Z'\<close> moved by \<^verbatim>\<open>'a' - 'A'\<close>; any other
  string goes through \<^verbatim>\<open>strings.Map(unicode.ToLower, s)\<close>, which depends on the
  Unicode tables of the Go runtime. Those tables are taken as the parameter \<open>umap\<close>.
\<close>

definition is_ascii :: "char \<Rightarrow> bool" where
  "is_ascii c \<longleftrightarrow> (of_char c :: nat) < 128"

definition lower_byte :: "char \<Rightarrow> char" where
  "lower_byte c =
     (if (65::nat) \<le> of_char c \<and> (of_char c :: nat) \<le> 90
      then char_of (of_char c + (32::nat)) else c)"

definition ToLower :: "(string \<Rightarrow> string) \<Rightarrow> string \<Rightarrow> string" where
  "ToLower umap s = (if list_all is_ascii s then map lower_byte s else umap s)"

section \<open>Data model\<close>

type_synonym TagName = string

type_synonym TagType = string

text \<open>
  Modelled from the spec: \<^verbatim>\<open>model.TagName.ToLower\<close> is declared in another package
  of the repository; the spec has the target mapping keyed by the lower-cased tag
  name, so it is \<^verbatim>\<open>strings.ToLower\<close> on the name.
\<close>

definition TagName_ToLower :: "(string \<Rightarrow> string) \<Rightarrow> TagName \<Rightarrow> TagName" where
  "TagName_ToLower umap k = ToLower umap k"

text \<open>The struct \<^verbatim>\<open>tagConf\<close>. The empty \<open>Type\<close> is the type the spec calls none.\<close>

record tagConf =
  Aliases :: "string slice"
  Type :: TagType
  MaxLength :: int
  Split :: "string slice"

definition zero_tagConf :: tagConf where
  "zero_tagConf = \<lparr>Aliases = None, Type = [], MaxLength = 0, Split = None\<rparr>"

text \<open>
  A value of the Go map type \<^verbatim>\<open>tagMappings\<close> that the code ranges over is given as
  the sequence of entries in the order the \<^verbatim>\<open>range\<close> statement visits them; the Go
  runtime chooses that order anew for every loop. The keys of a Go map are
  distinct (\<open>is_go_map\<close>). The map that the code writes to and hands out is a
  partial function.
\<close>

type_synonym tagMappings = "(TagName \<times> tagConf) list"

type_synonym tagMap = "TagName \<rightharpoonup> tagConf"

definition is_go_map :: "tagMappings \<Rightarrow> bool" where
  "is_go_map m \<longleftrightarrow> distinct (map fst m)"

record mappingsConf =
  Main :: tagMappings
  Additional :: tagMappings
  Roles :: tagConf
  Artists :: tagConf

text \<open>The calls of \<^verbatim>\<open>log.Error\<close>, in the order they are made.\<close>

datatype log_entry =
    Error_opening
  | Error_decoding
  | Error_splitting TagName "string slice" TagType

section \<open>collectTags\<close>

text \<open>
  The loop of \<^verbatim>\<open>collectTags\<close> over the entries of one tier. The state is the
  target map \<open>normalized\<close>, which the source mutates in place, and the log.
\<close>

fun collectTags ::
  "(string \<Rightarrow> string) \<Rightarrow> tagMappings \<Rightarrow> tagMap \<times> log_entry list \<Rightarrow> tagMap \<times> log_entry list"
where
  "collectTags umap [] (normalized, lg) = (normalized, lg)"
| "collectTags umap ((k, v) # rest) (normalized, lg) =
     (let aliases = fold (\<lambda>val acc. append_slice acc (ToLower umap val)) (elems (Aliases v)) None;
          conflict = (Split v \<noteq> None \<and> Type v \<noteq> []);
          lg' = (if conflict then lg @ [Error_splitting k (Split v) (Type v)] else lg);
          v' = (if conflict then v\<lparr>Split := None\<rparr> else v)
      in collectTags umap rest
           (normalized(TagName_ToLower umap k \<mapsto>
              \<lparr>Aliases = aliases, Type = Type v', MaxLength = MaxLength v', Split = Split v'\<rparr>),
            lg'))"

section \<open>parseMappings and the accessors\<close>

text \<open>
  What the code reads from outside: the result of
  \<^verbatim>\<open>resources.FS().Open("mappings.yaml")\<close> (\<open>None\<close> is the error return, which
  leaves the file nil), the YAML decoder applied to that file, and the Unicode
  tables. The decoder either panics or returns, with or without an error, and
  leaves a value in \<^verbatim>\<open>mappings\<close>.
\<close>

datatype decode_result =
    Decode_panics
  | Decode_returns bool mappingsConf

record world =
  fs_open :: "string option"
  yaml_decode :: "string option \<Rightarrow> decode_result"
  unicode_lower :: "string \<Rightarrow> string"

datatype 'a outcome = Panics | Returns 'a

text \<open>The function that \<^verbatim>\<open>parseMappings\<close> wraps in \<^verbatim>\<open>sync.OnceValues\<close>.\<close>

definition parseMappings_func ::
  "world \<Rightarrow> (tagMap \<times> mappingsConf) outcome \<times> log_entry list"
where
  "parseMappings_func w =
     (let lg = (case fs_open w of None \<Rightarrow> [Error_opening] | Some _ \<Rightarrow> [])
      in case yaml_decode w (fs_open w) of
           Decode_panics \<Rightarrow> (Panics, lg)
         | Decode_returns err mappings \<Rightarrow>
             (let lg' = (if err then lg @ [Error_decoding] else lg);
                  s1 = collectTags (unicode_lower w) (Main mappings) (Map.empty, lg');
                  s2 = collectTags (unicode_lower w) (Additional mappings) s1
              in (Returns (fst s2, mappings), snd s2)))"

text \<open>
  \<^verbatim>\<open>sync.OnceValues\<close>: the first call runs the function and keeps what it did
  (its results, or its panic); every later call gives that back without running
  it. The process state holds that cell and the log written so far.
\<close>

record process =
  once :: "(tagMap \<times> mappingsConf) outcome option"
  logged :: "log_entry list"

definition initial :: process where
  "initial = \<lparr>once = None, logged = []\<rparr>"

definition parseMappings ::
  "world \<Rightarrow> process \<Rightarrow> (tagMap \<times> mappingsConf) outcome \<times> process"
where
  "parseMappings w p =
     (case once p of
        Some r \<Rightarrow> (r, p)
      | None \<Rightarrow>
          (let (r, lg) = parseMappings_func w
           in (r, \<lparr>once = Some r, logged = logged p @ lg\<rparr>)))"

definition mappings :: "world \<Rightarrow> process \<Rightarrow> tagMap outcome \<times> process" where
  "mappings w p =
     (case parseMappings w p of
        (Panics, p') \<Rightarrow> (Panics, p')
      | (Returns (m, conf), p') \<Rightarrow> (Returns m, p'))"

definition rolesConf :: "world \<Rightarrow> process \<Rightarrow> tagConf outcome \<times> process" where
  "rolesConf w p =
     (case parseMappings w p of
        (Panics, p') \<Rightarrow> (Panics, p')
      | (Returns (m, conf), p') \<Rightarrow> (Returns (Roles conf), p'))"

definition artistsConf :: "world \<Rightarrow> process \<Rightarrow> tagConf outcome \<times> process" where
  "artistsConf w p =
     (case parseMappings w p of
        (Panics, p') \<Rightarrow> (Panics, p')
      | (Returns (m, conf), p') \<Rightarrow> (Returns (Artists conf), p'))"

text \<open>A sequence of accessor calls; the world may differ from call to call.\<close>

datatype accessor = Call_mappings | Call_rolesConf | Call_artistsConf

datatype answer = Mapping_answer tagMap | Conf_answer tagConf

fun call :: "accessor \<Rightarrow> world \<Rightarrow> process \<Rightarrow> answer outcome \<times> process" where
  "call Call_mappings w p =
     (case mappings w p of
        (Panics, p') \<Rightarrow> (Panics, p')
      | (Returns m, p') \<Rightarrow> (Returns (Mapping_answer m), p'))"
| "call Call_rolesConf w p =
     (case rolesConf w p of
        (Panics, p') \<Rightarrow> (Panics, p')
      | (Returns c, p') \<Rightarrow> (Returns (Conf_answer c), p'))"
| "call Call_artistsConf w p =
     (case artistsConf w p of
        (Panics, p') \<Rightarrow> (Panics, p')
      | (Returns c, p') \<Rightarrow> (Returns (Conf_answer c), p'))"

fun calls :: "(accessor \<times> world) list \<Rightarrow> process \<Rightarrow> answer outcome list \<times> process" where
  "calls [] p = ([], p)"
| "calls ((a, w) # rest) p =
     (let (r, p') = call a w p; (rs, p'') = calls rest p' in (r # rs, p''))"

section \<open>Derived notions used in the statements\<close>

text \<open>
  \<open>collected umap v\<close> is the literal that one pass of the loop of \<^verbatim>\<open>collectTags\<close>
  stores for the raw entry \<open>v\<close>, and \<open>split_errors k v\<close> is what that pass logs
  (lemma \<open>collectTags_Cons\<close> below). \<open>lowered\<close> is the sequence of writes of one
  call of \<^verbatim>\<open>collectTags\<close>.
\<close>

definition collected :: "(string \<Rightarrow> string) \<Rightarrow> tagConf \<Rightarrow> tagConf" where
  "collected umap v =
     \<lparr>Aliases = (if elems (Aliases v) = [] then None
                 else Some (map (ToLower umap) (elems (Aliases v)))),
      Type = Type v, MaxLength = MaxLength v,
      Split = (if Split v \<noteq> None \<and> Type v \<noteq> [] then None else Split v)\<rparr>"

definition split_errors :: "TagName \<Rightarrow> tagConf \<Rightarrow> log_entry list" where
  "split_errors k v =
     (if Split v \<noteq> None \<and> Type v \<noteq> [] then [Error_splitting k (Split v) (Type v)] else [])"

definition lowered :: "(string \<Rightarrow> string) \<Rightarrow> tagMappings \<Rightarrow> tagMappings" where
  "lowered umap kvs = map (\<lambda>(k, v). (TagName_ToLower umap k, collected umap v)) kvs"

text \<open>What an accessor makes of the outcome kept by \<^verbatim>\<open>sync.OnceValues\<close>.\<close>

definition answer_of :: "accessor \<Rightarrow> (tagMap \<times> mappingsConf) outcome \<Rightarrow> answer outcome" where
  "answer_of a r =
     (case r of
        Panics \<Rightarrow> Panics
      | Returns (m, conf) \<Rightarrow>
          Returns (case a of
                     Call_mappings \<Rightarrow> Mapping_answer m
                   | Call_rolesConf \<Rightarrow> Conf_answer (Roles conf)
                   | Call_artistsConf \<Rightarrow> Conf_answer (Artists conf)))"

section \<open>Concrete documents and worlds\<close>

text \<open>
  Unicode tables that lower-case the ASCII letters and leave every other byte
  alone, and a world in which \<^verbatim>\<open>mappings.yaml\<close> opens and the decoder leaves \<open>conf\<close>
  in \<^verbatim>\<open>mappings\<close> without an error. The bytes of the file are not looked at: the
  decoder is a parameter. Handed a nil file, this decoder panics.
\<close>

definition ascii_tables :: "string \<Rightarrow> string" where
  "ascii_tables s = map lower_byte s"

definition world_decoding :: "mappingsConf \<Rightarrow> world" where
  "world_decoding conf =
     \<lparr>fs_open = Some [],
      yaml_decode = (\<lambda>file. case file of None \<Rightarrow> Decode_panics
                                      | Some _ \<Rightarrow> Decode_returns False conf),
      unicode_lower = ascii_tables\<rparr>"

text \<open>The decoded form of the end-to-end example document of the spec.\<close>

definition example_main :: tagMappings where
  "example_main =
     [(''year'', \<lparr>Aliases = Some [''date''], Type = ''integer'', MaxLength = 0, Split = None\<rparr>),
      (''genre'', \<lparr>Aliases = Some [''genres''], Type = [], MaxLength = 0,
                  Split = Some [''/'', '';'']\<rparr>)]"

definition example_additional :: tagMappings where
  "example_additional =
     [(''year'', \<lparr>Aliases = Some [''date'', ''releaseyear''], Type = [], MaxLength = 4,
                 Split = None\<rparr>)]"

definition example_roles :: tagConf where
  "example_roles = \<lparr>Aliases = Some [''ROLE''], Type = [], MaxLength = 0, Split = None\<rparr>"

definition example_conf :: mappingsConf where
  "example_conf =
     \<lparr>Main = example_main, Additional = example_additional,
      Roles = example_roles, Artists = zero_tagConf\<rparr>"

text \<open>
  A document with mixed-case keys and aliases, a key held by both tiers, an
  unrecognised type, and entries that declare a split together with a type.
\<close>

definition mixed_main :: tagMappings where
  "mixed_main =
     [(''Year'', \<lparr>Aliases = Some [''DATE''], Type = ''integer'', MaxLength = 0,
                 Split = Some [''/'']\<rparr>)]"

definition mixed_additional :: tagMappings where
  "mixed_additional =
     [(''YEAR'', \<lparr>Aliases = Some [''Date'', ''ReleaseYear''], Type = ''bogus'', MaxLength = 4,
                 Split = Some ['';'']\<rparr>),
      (''Genre'', \<lparr>Aliases = Some [''GENRES''], Type = [], MaxLength = 0,
                  Split = Some [''/'', '';'']\<rparr>)]"

definition mixed_roles :: tagConf where
  "mixed_roles = \<lparr>Aliases = Some [''ROLE''], Type = ''integer'', MaxLength = 0,
                   Split = Some [''/'']\<rparr>"

definition mixed_conf :: mappingsConf where
  "mixed_conf =
     \<lparr>Main = mixed_main, Additional = mixed_additional,
      Roles = mixed_roles, Artists = zero_tagConf\<rparr>"

text \<open>A one-tier document whose tier is given in the order the loop visits it.\<close>

definition main_only :: "tagMappings \<Rightarrow> mappingsConf" where
  "main_only m = \<lparr>Main = m, Additional = [], Roles = zero_tagConf, Artists = zero_tagConf\<rparr>"

text \<open>
  Two one-tier documents in which the keys \<^verbatim>\<open>Year\<close> and \<^verbatim>\<open>year\<close> share a
  lower-cased form: with different entries, and with the same entry.
\<close>

definition clash_main :: tagMappings where
  "clash_main =
     [(''Year'', \<lparr>Aliases = None, Type = ''integer'', MaxLength = 4, Split = None\<rparr>),
      (''year'', zero_tagConf)]"

definition twin_main :: tagMappings where
  "twin_main = [(''Year'', zero_tagConf), (''year'', zero_tagConf)]"

section \<open>Lemmas about the loop and the cache\<close>

lemma fold_append_slice:
  "fold (\<lambda>val acc. append_slice acc (f val)) xs acc =
     (if xs = [] then acc else Some (elems acc @ map f xs))"
proof (induction xs arbitrary: acc)
  case Nil
  show ?case by simp
next
  case (Cons x xs)
  show ?case by (cases acc) (simp_all add: Cons.IH)
qed

lemma collectTags_Cons:
  "collectTags umap ((k, v) # rest) (normalized, lg) =
     collectTags umap rest
       (normalized(TagName_ToLower umap k \<mapsto> collected umap v), lg @ split_errors k v)"
  by (simp add: Let_def collected_def split_errors_def fold_append_slice)

lemma collectTags_eq:
  "collectTags umap kvs (normalized, lg) =
     (normalized ++ map_of (rev (lowered umap kvs)),
      lg @ concat (map (\<lambda>(k, v). split_errors k v) kvs))"
proof (induction kvs arbitrary: normalized lg)
  case Nil
  show ?case by (simp add: lowered_def)
next
  case (Cons kv kvs)
  obtain k v where kv: "kv = (k, v)" by (cases kv)
  show ?case
    unfolding kv collectTags_Cons Cons.IH
    by (simp add: lowered_def map_add_upd_left)
qed

lemma lower_byte_idem: "lower_byte (lower_byte c) = lower_byte c"
  by (simp add: lower_byte_def)

lemma is_ascii_lower_byte: "is_ascii c \<Longrightarrow> is_ascii (lower_byte c)"
  by (simp add: lower_byte_def is_ascii_def)

lemma ToLower_ascii_idem:
  assumes "list_all is_ascii s"
  shows "ToLower umap (ToLower umap s) = ToLower umap s"
proof -
  have "list_all is_ascii (map lower_byte s)"
    using assms by (induction s) (simp_all add: is_ascii_lower_byte)
  then show ?thesis
    using assms by (simp add: ToLower_def lower_byte_idem)
qed

lemma ToLower_idem:
  assumes "\<And>s. \<not> list_all is_ascii s \<Longrightarrow> ToLower umap (umap s) = umap s"
  shows "ToLower umap (ToLower umap s) = ToLower umap s"
proof (cases "list_all is_ascii s")
  case True
  then show ?thesis by (rule ToLower_ascii_idem)
next
  case False
  then have "ToLower umap s = umap s" by (simp add: ToLower_def)
  then show ?thesis using assms [OF False] by simp
qed

lemma parseMappings_func_returns:
  assumes "yaml_decode w (fs_open w) = Decode_returns err conf"
  shows "parseMappings_func w =
    (Returns (map_of (rev (lowered (unicode_lower w) (Main conf @ Additional conf))), conf),
     (case fs_open w of None \<Rightarrow> [Error_opening] | Some _ \<Rightarrow> []) @
     (if err then [Error_decoding] else []) @
     concat (map (\<lambda>(k, v). split_errors k v) (Main conf @ Additional conf)))"
  using assms
  by (simp add: parseMappings_func_def Let_def collectTags_eq lowered_def rev_map)

lemma parseMappings_func_panics:
  assumes "yaml_decode w (fs_open w) = Decode_panics"
  shows "parseMappings_func w =
    (Panics, (case fs_open w of None \<Rightarrow> [Error_opening] | Some _ \<Rightarrow> []))"
  using assms by (simp add: parseMappings_func_def)

lemma parseMappings_func_ReturnsD:
  assumes "parseMappings_func w = (Returns (normalized, conf), lg)"
  shows "normalized = map_of (rev (lowered (unicode_lower w) (Main conf @ Additional conf)))"
proof (cases "yaml_decode w (fs_open w)")
  case Decode_panics
  then show ?thesis using assms by (simp add: parseMappings_func_panics)
next
  case (Decode_returns err c)
  then show ?thesis using assms by (auto simp: parseMappings_func_returns)
qed

lemma resolved_entry_origin:
  assumes "map_of (rev (lowered umap kvs)) k = Some e"
  shows "\<exists>k' v. (k', v) \<in> set kvs \<and> k = TagName_ToLower umap k' \<and> e = collected umap v"
proof -
  from assms have "(k, e) \<in> set (lowered umap kvs)"
    by (auto dest: map_of_SomeD)
  then show ?thesis by (auto simp: lowered_def)
qed

lemma resolved_entry_last:
  assumes "kvs = xs @ (k, v) # ys"
    and "TagName_ToLower umap k \<notin> TagName_ToLower umap ` fst ` set ys"
  shows "map_of (rev (lowered umap kvs)) (TagName_ToLower umap k) = Some (collected umap v)"
proof -
  have "map_of (rev (lowered umap ys)) (TagName_ToLower umap k) = None"
    using assms(2) by (force simp: map_of_eq_None_iff lowered_def image_iff)
  then show ?thesis
    unfolding assms(1) by (simp add: lowered_def map_add_def rev_map[symmetric])
qed

lemma elems_Aliases_collected:
  "elems (Aliases (collected umap v)) = map (ToLower umap) (elems (Aliases v))"
  by (simp add: collected_def)

lemma Split_collected:
  "Split (collected umap v) = (if Type v \<noteq> [] then None else Split v)"
  by (simp add: collected_def)

lemma Type_collected: "Type (collected umap v) = Type v"
  by (simp add: collected_def)



lemma last_of_its_key:
  assumes "distinct (map fst t)" and "(k, v) \<in> set t"
    and "\<forall>k' \<in> fst ` set t. f k' = f k \<longrightarrow> k' = k"
  shows "\<exists>xs ys. t = xs @ (k, v) # ys \<and> f k \<notin> f ` fst ` set ys"
proof -
  from assms(2) obtain xs ys where t: "t = xs @ (k, v) # ys"
    by (auto dest: split_list)
  have "f k \<notin> f ` fst ` set ys"
  proof
    assume "f k \<in> f ` fst ` set ys"
    then obtain k' where k': "k' \<in> fst ` set ys" "f k' = f k" by force
    then have "k' = k" using assms(3) t by auto
    then show False using k'(1) assms(1) t by auto
  qed
  with t show ?thesis by blast
qed

lemma last_with_key:
  assumes "(k, v) \<in> set t"
  shows "\<exists>xs k' v' ys. t = xs @ (k', v') # ys \<and> f k' = f k \<and> f k \<notin> f ` fst ` set ys"
proof -
  from assms have "\<exists>kv \<in> set t. f (fst kv) = f k"
    by force
  then obtain xs kv ys where t: "t = xs @ kv # ys" and kv: "f (fst kv) = f k"
    and ys: "\<forall>z \<in> set ys. f (fst z) \<noteq> f k"
    by (rule split_list_last_propE)
  obtain k' v' where "kv = (k', v')"
    by (cases kv)
  with t kv ys have "t = xs @ (k', v') # ys \<and> f k' = f k \<and> f k \<notin> f ` fst ` set ys"
    by force
  then show ?thesis by blast
qed

lemma lowered_append: "lowered umap (xs @ ys) = lowered umap xs @ lowered umap ys"
  by (simp add: lowered_def)

lemma mset_lowered:
  "mset xs = mset ys \<Longrightarrow> mset (lowered umap xs) = mset (lowered umap ys)"
  by (simp add: lowered_def)

lemma map_fst_lowered: "map fst (lowered umap kvs) = map (TagName_ToLower umap \<circ> fst) kvs"
  by (simp add: lowered_def case_prod_unfold comp_def)

lemma map_of_rev_permuted:
  assumes "distinct (map (TagName_ToLower umap \<circ> fst) xs)" and "mset xs = mset ys"
  shows "map_of (rev (lowered umap xs)) = map_of (rev (lowered umap ys))"
proof -
  have m: "mset (lowered umap xs) = mset (lowered umap ys)"
    using assms(2) by (rule mset_lowered)
  have dx: "distinct (map fst (lowered umap xs))"
    using assms(1) by (simp add: map_fst_lowered)
  have "mset (map fst (lowered umap xs)) = mset (map fst (lowered umap ys))"
    using m by simp
  then have "distinct (map fst (lowered umap xs)) \<longleftrightarrow> distinct (map fst (lowered umap ys))"
    by (rule mset_eq_imp_distinct_iff)
  with dx have dy: "distinct (map fst (lowered umap ys))"
    by simp
  have "set (lowered umap xs) = set (lowered umap ys)"
    using m by (rule mset_eq_setD)
  then have s: "set (rev (lowered umap xs)) = set (rev (lowered umap ys))"
    by simp
  have dx': "distinct (map fst (rev (lowered umap xs)))"
    using dx by (simp add: rev_map [symmetric])
  have dy': "distinct (map fst (rev (lowered umap ys)))"
    using dy by (simp add: rev_map [symmetric])
  from dx' dy' s show ?thesis
    by (simp only: map_of_inject_set)
qed

lemma resolved_permuted:
  assumes "distinct (map (TagName_ToLower umap \<circ> fst) m1)"
    and "distinct (map (TagName_ToLower umap \<circ> fst) a1)"
    and "mset m1 = mset m2" and "mset a1 = mset a2"
  shows "map_of (rev (lowered umap (m1 @ a1))) = map_of (rev (lowered umap (m2 @ a2)))"
  using map_of_rev_permuted [OF assms(1) assms(3)] map_of_rev_permuted [OF assms(2) assms(4)]
  by (simp add: lowered_append)

lemma moved_last_differs:
  assumes "(k, v) \<in> set t"
    and "TagName_ToLower umap k \<notin> TagName_ToLower umap ` fst ` set after"
    and "map_of (rev (lowered umap (before @ t @ after))) (TagName_ToLower umap k)
           \<noteq> Some (collected umap v)"
  shows "\<exists>t'. mset t' = mset t \<and>
    map_of (rev (lowered umap (before @ t' @ after)))
      \<noteq> map_of (rev (lowered umap (before @ t @ after)))"
proof -
  let ?t' = "remove1 (k, v) t @ [(k, v)]"
  have "before @ ?t' @ after = (before @ remove1 (k, v) t) @ (k, v) # after"
    by simp
  then have "map_of (rev (lowered umap (before @ ?t' @ after))) (TagName_ToLower umap k)
      = Some (collected umap v)"
    using assms(2) by (rule resolved_entry_last)
  with assms(3) have "map_of (rev (lowered umap (before @ ?t' @ after)))
      \<noteq> map_of (rev (lowered umap (before @ t @ after)))"
    by (auto dest: fun_cong)
  moreover have "mset ?t' = mset t"
    using assms(1) by simp
  ultimately show ?thesis by (intro exI [of _ ?t'] conjI)
qed

lemma some_order_differs:
  assumes "(k1, v1) \<in> set t" and "(k2, v2) \<in> set t"
    and "TagName_ToLower umap k1 = TagName_ToLower umap k2"
    and "collected umap v1 \<noteq> collected umap v2"
    and "TagName_ToLower umap k1 \<notin> TagName_ToLower umap ` fst ` set after"
  shows "\<exists>t'. mset t' = mset t \<and>
    map_of (rev (lowered umap (before @ t' @ after)))
      \<noteq> map_of (rev (lowered umap (before @ t @ after)))"
proof (cases "map_of (rev (lowered umap (before @ t @ after))) (TagName_ToLower umap k1)
    = Some (collected umap v1)")
  case True
  then have "map_of (rev (lowered umap (before @ t @ after))) (TagName_ToLower umap k2)
      \<noteq> Some (collected umap v2)"
    using assms(3,4) by simp
  moreover have "TagName_ToLower umap k2 \<notin> TagName_ToLower umap ` fst ` set after"
    using assms(3,5) by simp
  ultimately show ?thesis
    using assms(2) by (intro moved_last_differs)
next
  case False
  with assms(1,5) show ?thesis
    by (intro moved_last_differs)
qed

lemma parseMappings_cached: "once p = Some r \<Longrightarrow> parseMappings w p = (r, p)"
  by (simp add: parseMappings_def)

lemma parseMappings_first:
  "once p = None \<Longrightarrow> parseMappings w p =
     (fst (parseMappings_func w),
      \<lparr>once = Some (fst (parseMappings_func w)), logged = logged p @ snd (parseMappings_func w)\<rparr>)"
  by (simp add: parseMappings_def case_prod_unfold Let_def)

lemma call_parseMappings:
  "call a w p = (answer_of a (fst (parseMappings w p)), snd (parseMappings w p))"
  by (cases a; cases "parseMappings w p"; cases "fst (parseMappings w p)")
     (auto simp: mappings_def rolesConf_def artistsConf_def answer_of_def)

lemma call_cached: "once p = Some r \<Longrightarrow> call a w p = (answer_of a r, p)"
  by (simp add: call_parseMappings parseMappings_cached)

lemma call_first:
  "once p = None \<Longrightarrow> call a w p =
     (answer_of a (fst (parseMappings_func w)),
      \<lparr>once = Some (fst (parseMappings_func w)), logged = logged p @ snd (parseMappings_func w)\<rparr>)"
  by (simp add: call_parseMappings parseMappings_first)

lemma calls_cached:
  "once p = Some r \<Longrightarrow> calls cs p = (map (\<lambda>(a, w). answer_of a r) cs, p)"
  by (induction cs) (auto simp: call_cached)

lemma calls_answers:
  "\<exists>r. fst (calls cs p) = map (\<lambda>(a, w). answer_of a r) cs \<and>
       (once p = None \<longrightarrow> (\<forall>a w rest. cs = (a, w) # rest \<longrightarrow> r = fst (parseMappings_func w)))"
proof (cases "once p")
  case (Some r)
  then show ?thesis by (auto simp: calls_cached)
next
  case None
  show ?thesis
  proof (cases cs)
    case Nil
    then show ?thesis by simp
  next
    case (Cons c rest)
    obtain a w where c: "c = (a, w)" by (cases c)
    let ?r = "fst (parseMappings_func w)"
    let ?p = "\<lparr>once = Some ?r, logged = logged p @ snd (parseMappings_func w)\<rparr>"
    have "calls rest ?p = (map (\<lambda>(a, w). answer_of a ?r) rest, ?p)"
      by (rule calls_cached) simp
    then have "fst (calls cs p) = map (\<lambda>(a, w). answer_of a ?r) cs"
      by (simp add: Cons c call_first [OF None])
    then show ?thesis by (auto simp: Cons c)
  qed
qed

lemma calls_state: "snd (calls ((a, w) # rest) p) = snd (call a w p)"
proof (cases "once p")
  case (Some r)
  then show ?thesis by (simp add: call_cached calls_cached)
next
  case None
  let ?r = "fst (parseMappings_func w)"
  let ?p = "\<lparr>once = Some ?r, logged = logged p @ snd (parseMappings_func w)\<rparr>"
  have "calls rest ?p = (map (\<lambda>(a, w). answer_of a ?r) rest, ?p)"
    by (rule calls_cached) simp
  then show ?thesis by (simp add: call_first [OF None])
qed

lemma parseMappings_func_no_panic:
  "yaml_decode w (fs_open w) \<noteq> Decode_panics \<Longrightarrow> fst (parseMappings_func w) \<noteq> Panics"
  by (cases "yaml_decode w (fs_open w)") (simp_all add: parseMappings_func_returns)

lemma answer_of_no_panic: "r \<noteq> Panics \<Longrightarrow> answer_of a r \<noteq> Panics"
  by (cases r) (auto simp: answer_of_def)

lemma calls_head:
  "fst (calls ((a, w) # rest) p) = fst (call a w p) # fst (calls rest (snd (call a w p)))"
  by (simp add: case_prod_unfold Let_def)

lemma rerun_exists:
  fixes conf :: mappingsConf and w :: world
  assumes "mset m' = mset (Main conf)" and "mset a' = mset (Additional conf)"
    and "map_of (rev (lowered (unicode_lower w) (m' @ a'))) \<noteq> normalized"
  shows "\<exists>w' normalized' conf' lg'.
      parseMappings_func w' = (Returns (normalized', conf'), lg') \<and>
      unicode_lower w' = unicode_lower w \<and>
      mset (Main conf') = mset (Main conf) \<and> mset (Additional conf') = mset (Additional conf) \<and>
      Roles conf' = Roles conf \<and> Artists conf' = Artists conf \<and>
      normalized' \<noteq> normalized"
proof -
  let ?conf = "conf\<lparr>Main := m', Additional := a'\<rparr>"
  let ?w = "w\<lparr>yaml_decode := \<lambda>file. Decode_returns False ?conf\<rparr>"
  have "yaml_decode ?w (fs_open ?w) = Decode_returns False ?conf"
    by simp
  from parseMappings_func_returns [OF this]
  have "\<exists>lg'. parseMappings_func ?w =
      (Returns (map_of (rev (lowered (unicode_lower w) (m' @ a'))), ?conf), lg')"
    by simp
  then obtain lg' where run: "parseMappings_func ?w =
      (Returns (map_of (rev (lowered (unicode_lower w) (m' @ a'))), ?conf), lg')" ..
  have "parseMappings_func ?w =
      (Returns (map_of (rev (lowered (unicode_lower w) (m' @ a'))), ?conf), lg') \<and>
      unicode_lower ?w = unicode_lower w \<and>
      mset (Main ?conf) = mset (Main conf) \<and> mset (Additional ?conf) = mset (Additional conf) \<and>
      Roles ?conf = Roles conf \<and> Artists ?conf = Artists conf \<and>
      map_of (rev (lowered (unicode_lower w) (m' @ a'))) \<noteq> normalized"
    using run assms by simp
  then show ?thesis by blast
qed

subsection \<open>The concrete documents, evaluated\<close>

lemma lowered_mixed:
  "lowered umap (mixed_main @ mixed_additional) =
     [(''year'', \<lparr>Aliases = Some [''date''], Type = ''integer'', MaxLength = 0, Split = None\<rparr>),
      (''year'', \<lparr>Aliases = Some [''date'', ''releaseyear''], Type = ''bogus'', MaxLength = 4,
                 Split = None\<rparr>),
      (''genre'', \<lparr>Aliases = Some [''genres''], Type = [], MaxLength = 0,
                  Split = Some [''/'', '';'']\<rparr>)]"
  by code_simp

lemma lowered_example:
  "lowered umap (example_main @ example_additional) =
     [(''year'', \<lparr>Aliases = Some [''date''], Type = ''integer'', MaxLength = 0, Split = None\<rparr>),
      (''genre'', \<lparr>Aliases = Some [''genres''], Type = [], MaxLength = 0,
                  Split = Some [''/'', '';'']\<rparr>),
      (''year'', \<lparr>Aliases = Some [''date'', ''releaseyear''], Type = [], MaxLength = 4,
                 Split = None\<rparr>)]"
  by code_simp

lemma ToLower_ascii_tables: "ToLower ascii_tables s = map lower_byte s"
  by (simp add: ToLower_def ascii_tables_def)

lemma ascii_tables_closed:
  "ToLower ascii_tables (ascii_tables s) = ascii_tables s"
  by (simp add: ToLower_ascii_tables ascii_tables_def lower_byte_idem)

lemma world_decoding_run:
  "parseMappings_func (world_decoding conf) =
     (Returns (map_of (rev (lowered ascii_tables (Main conf @ Additional conf))), conf),
      concat (map (\<lambda>(k, v). split_errors k v) (Main conf @ Additional conf)))"
  by (simp add: parseMappings_func_returns [where err = False and conf = conf] world_decoding_def)

lemma mixed_run:
  "parseMappings_func (world_decoding mixed_conf) =
     (Returns (map_of (rev (lowered ascii_tables (mixed_main @ mixed_additional))), mixed_conf),
      concat (map (\<lambda>(k, v). split_errors k v) (mixed_main @ mixed_additional)))"
  by (simp add: world_decoding_run mixed_conf_def)

lemma mixed_year:
  "map_of (rev (lowered ascii_tables (mixed_main @ mixed_additional))) ''year'' =
     Some \<lparr>Aliases = Some [''date'', ''releaseyear''], Type = ''bogus'', MaxLength = 4,
           Split = None\<rparr>"
  by (simp add: lowered_mixed)

lemma unicode_lower_world_decoding: "unicode_lower (world_decoding conf) = ascii_tables"
  by (simp add: world_decoding_def)

lemma call_world_decoding:
  "call a (world_decoding conf) initial =
     (answer_of a (Returns (map_of (rev (lowered ascii_tables (Main conf @ Additional conf))), conf)),
      \<lparr>once = Some (Returns (map_of (rev (lowered ascii_tables (Main conf @ Additional conf))), conf)),
        logged = concat (map (\<lambda>(k, v). split_errors k v) (Main conf @ Additional conf))\<rparr>)"
  by (simp add: call_first initial_def world_decoding_run)

lemma mappings_world_decoding:
  "fst (mappings (world_decoding conf) initial) =
     Returns (map_of (rev (lowered ascii_tables (Main conf @ Additional conf))))"
  by (simp add: mappings_def parseMappings_first initial_def world_decoding_run)

lemma example_keys_distinct:
  "distinct (map (TagName_ToLower umap \<circ> fst) example_main)"
  "distinct (map (TagName_ToLower umap \<circ> fst) example_additional)"
  by code_simp+

lemma mset_pair:
  assumes "mset m = mset [a, b]"
  shows "m = [a, b] \<or> m = [b, a]"
proof -
  from assms have "length m = length [a, b]"
    by (rule mset_eq_length)
  then obtain x y where m: "m = [x, y]"
    by (cases m; cases "tl m") auto
  from assms show ?thesis
    unfolding m by (auto simp: add_eq_conv_ex)
qed

lemma lowered_twin:
  "lowered umap twin_main = [(''year'', zero_tagConf), (''year'', zero_tagConf)]"
  by code_simp

lemma lowered_clash:
  "lowered umap clash_main =
     [(''year'', \<lparr>Aliases = None, Type = ''integer'', MaxLength = 4, Split = None\<rparr>),
      (''year'', zero_tagConf)]"
  by code_simp

section \<open>The claims\<close>

text \<open>
  C1 (as amended). For the end-to-end example document of the spec, in whichever
  order the main tier is visited, the resolved mapping holds exactly the keys
  \<^verbatim>\<open>year\<close> and \<^verbatim>\<open>genre\<close>; \<^verbatim>\<open>year\<close> is the entry of the additional tier alone
  (aliases date and releaseyear, maxLength 4, no split, and the empty type: the
  type integer of the main tier is gone with the entry it belonged to),
  \<^verbatim>\<open>genre\<close> is as the document has it, and \<^verbatim>\<open>rolesConf\<close> returns the roles
  config as decoded, with the alias \<^verbatim>\<open>ROLE\<close> in upper case.
\<close>

theorem example_document_resolution:
  assumes decoded: "yaml_decode w (fs_open w) = Decode_returns err conf"
    and main: "mset (Main conf) = mset example_main"
    and additional: "Additional conf = example_additional"
    and roles: "Roles conf = example_roles"
  shows "\<exists>normalized lg.
    parseMappings_func w = (Returns (normalized, conf), lg) \<and>
    normalized ''year'' =
      Some \<lparr>Aliases = Some [''date'', ''releaseyear''], Type = [], MaxLength = 4, Split = None\<rparr> \<and>
    normalized ''genre'' =
      Some \<lparr>Aliases = Some [''genres''], Type = [], MaxLength = 0, Split = Some [''/'', '';'']\<rparr> \<and>
    dom normalized = {''year'', ''genre''} \<and>
    fst (rolesConf w initial) =
      Returns \<lparr>Aliases = Some [''ROLE''], Type = [], MaxLength = 0, Split = None\<rparr>"
proof -
  let ?u = "unicode_lower w"
  let ?n = "map_of (rev (lowered ?u (Main conf @ Additional conf)))"
  have "?n = map_of (rev (lowered ?u (example_main @ example_additional)))"
    using example_keys_distinct main [symmetric] additional [symmetric]
    by (intro resolved_permuted [symmetric]) simp_all
  then have n: "?n = map_of (rev
     [(''year'', \<lparr>Aliases = Some [''date''], Type = ''integer'', MaxLength = 0, Split = None\<rparr>),
      (''genre'', \<lparr>Aliases = Some [''genres''], Type = [], MaxLength = 0,
                  Split = Some [''/'', '';'']\<rparr>),
      (''year'', \<lparr>Aliases = Some [''date'', ''releaseyear''], Type = [], MaxLength = 4,
                 Split = None\<rparr>)])"
    by (simp only: lowered_example)
  have year: "?n ''year'' =
      Some \<lparr>Aliases = Some [''date'', ''releaseyear''], Type = [], MaxLength = 4, Split = None\<rparr>"
    unfolding n by simp
  have genre: "?n ''genre'' =
      Some \<lparr>Aliases = Some [''genres''], Type = [], MaxLength = 0, Split = Some [''/'', '';'']\<rparr>"
    unfolding n by simp
  have keys: "dom ?n = {''year'', ''genre''}"
    unfolding n by (simp only: dom_map_of_conv_image_fst) auto
  have r: "fst (rolesConf w initial) =
      Returns \<lparr>Aliases = Some [''ROLE''], Type = [], MaxLength = 0, Split = None\<rparr>"
    using decoded roles
    by (simp add: rolesConf_def parseMappings_first initial_def parseMappings_func_returns
        example_roles_def)
  from parseMappings_func_returns [OF decoded] year genre keys r show ?thesis
    by blast
qed

theorem example_document_resolution_witness:
  "yaml_decode (world_decoding (example_conf\<lparr>Main := rev example_main\<rparr>))
      (fs_open (world_decoding (example_conf\<lparr>Main := rev example_main\<rparr>))) =
     Decode_returns False (example_conf\<lparr>Main := rev example_main\<rparr>) \<and>
   mset (Main (example_conf\<lparr>Main := rev example_main\<rparr>)) = mset example_main \<and>
   (\<exists>normalized lg.
      parseMappings_func (world_decoding (example_conf\<lparr>Main := rev example_main\<rparr>)) =
        (Returns (normalized, example_conf\<lparr>Main := rev example_main\<rparr>), lg) \<and>
      normalized ''year'' =
        Some \<lparr>Aliases = Some [''date'', ''releaseyear''], Type = [], MaxLength = 4, Split = None\<rparr> \<and>
      normalized ''genre'' =
        Some \<lparr>Aliases = Some [''genres''], Type = [], MaxLength = 0,
              Split = Some [''/'', '';'']\<rparr> \<and>
      dom normalized = {''year'', ''genre''} \<and>
      fst (rolesConf (world_decoding (example_conf\<lparr>Main := rev example_main\<rparr>)) initial) =
        Returns \<lparr>Aliases = Some [''ROLE''], Type = [], MaxLength = 0, Split = None\<rparr>)"
proof -
  let ?c = "example_conf\<lparr>Main := rev example_main\<rparr>"
  have d: "yaml_decode (world_decoding ?c) (fs_open (world_decoding ?c)) = Decode_returns False ?c"
    by (simp add: world_decoding_def)
  have m: "mset (Main ?c) = mset example_main"
    by simp
  have a: "Additional ?c = example_additional"
    by (simp add: example_conf_def)
  have r: "Roles ?c = example_roles"
    by (simp add: example_conf_def)
  from example_document_resolution [OF d m a r] d m show ?thesis
    by blast
qed

text \<open>
  C1 as stated fails on the example: the resolved \<^verbatim>\<open>year\<close> entry does not have the
  type integer, and the roles config does not have the alias \<^verbatim>\<open>role\<close>.
\<close>

theorem example_document_as_claimed_fails:
  "(\<exists>normalized lg.
      parseMappings_func (world_decoding example_conf) = (Returns (normalized, example_conf), lg) \<and>
      (\<exists>e. normalized ''year'' = Some e \<and> Type e \<noteq> ''integer'')) \<and>
   (\<exists>r. fst (rolesConf (world_decoding example_conf) initial) = Returns r \<and>
      elems (Aliases r) \<noteq> [''role''])"
proof -
  let ?n = "map_of (rev (lowered ascii_tables (Main example_conf @ Additional example_conf)))"
  have "?n ''year'' =
      Some \<lparr>Aliases = Some [''date'', ''releaseyear''], Type = [], MaxLength = 4, Split = None\<rparr>"
    by (simp add: example_conf_def lowered_example)
  then have "\<exists>e. ?n ''year'' = Some e \<and> Type e \<noteq> ''integer''"
    by simp
  moreover have "fst (rolesConf (world_decoding example_conf) initial) = Returns example_roles"
    by (simp add: rolesConf_def parseMappings_first initial_def world_decoding_run example_conf_def)
  moreover have "elems (Aliases example_roles) \<noteq> [''role'']"
    by (simp add: example_roles_def)
  ultimately show ?thesis
    using world_decoding_run [of example_conf] by blast
qed

text \<open>
  C2 (as amended). \<^verbatim>\<open>rolesConf\<close> and \<^verbatim>\<open>artistsConf\<close> return the roles and artists
  sub-configs exactly as the decoder left them: \<^verbatim>\<open>collectTags\<close> is applied to the
  two tiers only.
\<close>

theorem sub_configs_returned_as_decoded:
  assumes "yaml_decode w (fs_open w) = Decode_returns err conf"
  shows "fst (rolesConf w initial) = Returns (Roles conf) \<and>
    fst (artistsConf w initial) = Returns (Artists conf)"
  using assms
  by (simp add: rolesConf_def artistsConf_def initial_def parseMappings_first
      parseMappings_func_returns)

theorem sub_configs_returned_as_decoded_witness:
  "yaml_decode (world_decoding mixed_conf) (fs_open (world_decoding mixed_conf)) =
     Decode_returns False mixed_conf \<and>
   fst (rolesConf (world_decoding mixed_conf) initial) = Returns mixed_roles \<and>
   fst (artistsConf (world_decoding mixed_conf) initial) = Returns zero_tagConf"
proof -
  have d: "yaml_decode (world_decoding mixed_conf) (fs_open (world_decoding mixed_conf)) =
     Decode_returns False mixed_conf"
    by (simp add: world_decoding_def)
  from sub_configs_returned_as_decoded [OF d] d show ?thesis
    by (simp add: mixed_conf_def)
qed

text \<open>
  C2 as stated fails: a roles config with an upper-case alias, a type and a split
  comes back with all three untouched.
\<close>

theorem sub_configs_not_normalized:
  "fst (rolesConf (world_decoding mixed_conf) initial) =
     Returns \<lparr>Aliases = Some [''ROLE''], Type = ''integer'', MaxLength = 0, Split = Some [''/'']\<rparr> \<and>
   ToLower ascii_tables ''ROLE'' = ''role'' \<and> ''ROLE'' \<noteq> ''role''"
proof -
  have "fst (rolesConf (world_decoding mixed_conf) initial) = Returns mixed_roles"
    by (simp add: rolesConf_def parseMappings_first initial_def world_decoding_run mixed_conf_def)
  moreover have "ToLower ascii_tables ''ROLE'' = ''role''"
    by code_simp
  ultimately show ?thesis by (simp add: mixed_roles_def)
qed

text \<open>
  C3. When \<^verbatim>\<open>mappings.yaml\<close> cannot be opened, the code logs the error and goes on
  to decode the nil file. If the decoder panics on it, the accessor panics, and
  \<^verbatim>\<open>sync.OnceValues\<close> keeps the panic for every later call; if the decoder returns
  an error instead, a second error is logged. Either way the outcome is not the
  one logged error and usable values of the claim.
\<close>

theorem open_failure_not_contained:
  assumes "fs_open w = None"
  shows "(yaml_decode w None = Decode_panics \<longrightarrow>
       call a w initial = (Panics, \<lparr>once = Some Panics, logged = [Error_opening]\<rparr>)) \<and>
    (\<forall>conf. yaml_decode w None = Decode_returns True conf \<longrightarrow>
       (\<exists>lg. logged (snd (call a w initial)) = Error_opening # Error_decoding # lg))"
proof (intro conjI allI impI)
  assume "yaml_decode w None = Decode_panics"
  then show "call a w initial = (Panics, \<lparr>once = Some Panics, logged = [Error_opening]\<rparr>)"
    using assms
    by (simp add: call_first initial_def parseMappings_func_panics answer_of_def)
next
  fix conf
  assume "yaml_decode w None = Decode_returns True conf"
  then show "\<exists>lg. logged (snd (call a w initial)) = Error_opening # Error_decoding # lg"
    using assms
    by (simp add: call_first initial_def parseMappings_func_returns)
qed

theorem open_failure_not_contained_witness:
  "fs_open ((world_decoding example_conf)\<lparr>fs_open := None\<rparr>) = None \<and>
   yaml_decode ((world_decoding example_conf)\<lparr>fs_open := None\<rparr>) None = Decode_panics \<and>
   call Call_mappings ((world_decoding example_conf)\<lparr>fs_open := None\<rparr>) initial =
     (Panics, \<lparr>once = Some Panics, logged = [Error_opening]\<rparr>)"
proof -
  let ?w = "(world_decoding example_conf)\<lparr>fs_open := None\<rparr>"
  have o: "fs_open ?w = None" by simp
  have d: "yaml_decode ?w None = Decode_panics"
    by (simp add: world_decoding_def)
  from open_failure_not_contained [OF o, of Call_mappings] d o show ?thesis
    by blast
qed

text \<open>
  C4. When a key of the main tier and a key of the additional tier have the same
  lower-cased form, the resolved entry for that key is the one \<^verbatim>\<open>collectTags\<close>
  builds from an entry of the additional tier with that lower-cased key alone:
  its maxLength and type, its aliases lower-cased, its split unless a type is
  declared. Nothing of the main entry is left. When no other key of the
  additional tier has that lower-cased form, it is the entry of that key.
\<close>

theorem additional_entry_replaces_main_entry:
  assumes run: "parseMappings_func w = (Returns (normalized, conf), lg)"
    and in_main: "(k1, v1) \<in> set (Main conf)"
    and in_additional: "(k2, v2) \<in> set (Additional conf)"
    and same_key: "TagName_ToLower (unicode_lower w) k1 = TagName_ToLower (unicode_lower w) k2"
  shows "(\<exists>k' v'. (k', v') \<in> set (Additional conf) \<and>
        TagName_ToLower (unicode_lower w) k' = TagName_ToLower (unicode_lower w) k2 \<and>
        normalized (TagName_ToLower (unicode_lower w) k1) =
          Some \<lparr>Aliases = (if elems (Aliases v') = [] then None
                            else Some (map (ToLower (unicode_lower w)) (elems (Aliases v')))),
                Type = Type v', MaxLength = MaxLength v',
                Split = (if Split v' \<noteq> None \<and> Type v' \<noteq> [] then None else Split v')\<rparr>) \<and>
    (is_go_map (Additional conf) \<and>
     (\<forall>k' \<in> fst ` set (Additional conf).
        TagName_ToLower (unicode_lower w) k' = TagName_ToLower (unicode_lower w) k2 \<longrightarrow> k' = k2)
     \<longrightarrow> normalized (TagName_ToLower (unicode_lower w) k1) =
          Some \<lparr>Aliases = (if elems (Aliases v2) = [] then None
                            else Some (map (ToLower (unicode_lower w)) (elems (Aliases v2)))),
                Type = Type v2, MaxLength = MaxLength v2,
                Split = (if Split v2 \<noteq> None \<and> Type v2 \<noteq> [] then None else Split v2)\<rparr>)"
proof (intro conjI impI)
  let ?u = "unicode_lower w"
  have n: "normalized = map_of (rev (lowered ?u (Main conf @ Additional conf)))"
    using run by (rule parseMappings_func_ReturnsD)
  from in_additional obtain xs k' v' ys
    where split: "Additional conf = xs @ (k', v') # ys"
      and key: "TagName_ToLower ?u k' = TagName_ToLower ?u k2"
      and last: "TagName_ToLower ?u k2 \<notin> TagName_ToLower ?u ` fst ` set ys"
    using last_with_key [of k2 v2 "Additional conf" "TagName_ToLower ?u"] by blast
  have "Main conf @ Additional conf = (Main conf @ xs) @ (k', v') # ys"
    using split by simp
  moreover have "TagName_ToLower ?u k' \<notin> TagName_ToLower ?u ` fst ` set ys"
    using last key by simp
  ultimately have "normalized (TagName_ToLower ?u k') = Some (collected ?u v')"
    unfolding n by (rule resolved_entry_last)
  then have "(k', v') \<in> set (Additional conf) \<and>
        TagName_ToLower ?u k' = TagName_ToLower ?u k2 \<and>
        normalized (TagName_ToLower ?u k1) =
          Some \<lparr>Aliases = (if elems (Aliases v') = [] then None
                            else Some (map (ToLower ?u) (elems (Aliases v')))),
                Type = Type v', MaxLength = MaxLength v',
                Split = (if Split v' \<noteq> None \<and> Type v' \<noteq> [] then None else Split v')\<rparr>"
    using split key same_key by (simp add: collected_def)
  then show "\<exists>k' v'. (k', v') \<in> set (Additional conf) \<and>
        TagName_ToLower ?u k' = TagName_ToLower ?u k2 \<and>
        normalized (TagName_ToLower ?u k1) =
          Some \<lparr>Aliases = (if elems (Aliases v') = [] then None
                            else Some (map (ToLower ?u) (elems (Aliases v')))),
                Type = Type v', MaxLength = MaxLength v',
                Split = (if Split v' \<noteq> None \<and> Type v' \<noteq> [] then None else Split v')\<rparr>"
    by blast
next
  let ?u = "unicode_lower w"
  assume a: "is_go_map (Additional conf) \<and>
     (\<forall>k' \<in> fst ` set (Additional conf).
        TagName_ToLower ?u k' = TagName_ToLower ?u k2 \<longrightarrow> k' = k2)"
  have n: "normalized = map_of (rev (lowered ?u (Main conf @ Additional conf)))"
    using run by (rule parseMappings_func_ReturnsD)
  from a have go_map: "distinct (map fst (Additional conf))"
    by (simp add: is_go_map_def)
  from a have one_casing: "\<forall>k' \<in> fst ` set (Additional conf).
        TagName_ToLower ?u k' = TagName_ToLower ?u k2 \<longrightarrow> k' = k2"
    by (rule conjunct2)
  from go_map in_additional one_casing obtain xs ys
    where split: "Additional conf = xs @ (k2, v2) # ys"
      and last: "TagName_ToLower ?u k2 \<notin> TagName_ToLower ?u ` fst ` set ys"
    using last_of_its_key [of "Additional conf" k2 v2 "TagName_ToLower ?u"]
    by blast
  have "Main conf @ Additional conf = (Main conf @ xs) @ (k2, v2) # ys"
    using split by simp
  then have "normalized (TagName_ToLower ?u k2) = Some (collected ?u v2)"
    unfolding n using last by (rule resolved_entry_last)
  then show "normalized (TagName_ToLower ?u k1) =
          Some \<lparr>Aliases = (if elems (Aliases v2) = [] then None
                            else Some (map (ToLower ?u) (elems (Aliases v2)))),
                Type = Type v2, MaxLength = MaxLength v2,
                Split = (if Split v2 \<noteq> None \<and> Type v2 \<noteq> [] then None else Split v2)\<rparr>"
    by (simp add: same_key collected_def)
qed

theorem additional_entry_replaces_main_entry_witness:
  "\<exists>normalized lg.
     parseMappings_func (world_decoding mixed_conf) = (Returns (normalized, mixed_conf), lg) \<and>
     (''Year'', \<lparr>Aliases = Some [''DATE''], Type = ''integer'', MaxLength = 0,
         Split = Some [''/'']\<rparr>) \<in> set (Main mixed_conf) \<and>
     (''YEAR'', \<lparr>Aliases = Some [''Date'', ''ReleaseYear''], Type = ''bogus'',
         MaxLength = 4, Split = Some ['';'']\<rparr>) \<in> set (Additional mixed_conf) \<and>
     TagName_ToLower ascii_tables ''Year'' = ''year'' \<and>
     TagName_ToLower ascii_tables ''YEAR'' = ''year'' \<and>
     is_go_map (Additional mixed_conf) \<and>
     normalized ''year'' =
       Some \<lparr>Aliases = Some [''date'', ''releaseyear''], Type = ''bogus'', MaxLength = 4,
             Split = None\<rparr>"
proof -
  let ?w = "world_decoding mixed_conf"
  let ?v1 = "\<lparr>Aliases = Some [''DATE''], Type = ''integer'', MaxLength = 0,
         Split = Some [''/'']\<rparr>"
  let ?v2 = "\<lparr>Aliases = Some [''Date'', ''ReleaseYear''], Type = ''bogus'',
          MaxLength = 4, Split = Some ['';'']\<rparr>"
  have k1: "TagName_ToLower ascii_tables ''Year'' = ''year''"
    by code_simp
  have k2: "TagName_ToLower ascii_tables ''YEAR'' = ''year''"
    by code_simp
  have k3: "TagName_ToLower ascii_tables ''Genre'' = ''genre''"
    by code_simp
  have lower: "ToLower ascii_tables ''Date'' = ''date''"
      "ToLower ascii_tables ''ReleaseYear'' = ''releaseyear''"
    by code_simp+
  have m: "(''Year'', ?v1) \<in> set (Main mixed_conf)"
    by (simp add: mixed_conf_def mixed_main_def)
  have a: "(''YEAR'', ?v2) \<in> set (Additional mixed_conf)"
    by (simp add: mixed_conf_def mixed_additional_def)
  have g: "is_go_map (Additional mixed_conf)"
    by (simp add: is_go_map_def mixed_conf_def mixed_additional_def)
  have one: "\<forall>k' \<in> fst ` set (Additional mixed_conf).
      TagName_ToLower (unicode_lower ?w) k' = TagName_ToLower (unicode_lower ?w) ''YEAR'' \<longrightarrow>
        k' = ''YEAR''"
    by (simp add: mixed_conf_def mixed_additional_def unicode_lower_world_decoding k2 k3)
  have same: "TagName_ToLower (unicode_lower ?w) ''Year'' = TagName_ToLower (unicode_lower ?w) ''YEAR''"
    by (simp add: unicode_lower_world_decoding k1 k2)
  from g one have go: "is_go_map (Additional mixed_conf) \<and>
      (\<forall>k' \<in> fst ` set (Additional mixed_conf).
        TagName_ToLower (unicode_lower ?w) k' = TagName_ToLower (unicode_lower ?w) ''YEAR'' \<longrightarrow>
          k' = ''YEAR'')"
    by (rule conjI)
  from additional_entry_replaces_main_entry [OF mixed_run m a same, THEN conjunct2, THEN mp, OF go]
  have "map_of (rev (lowered ascii_tables (mixed_main @ mixed_additional))) ''year'' =
       Some \<lparr>Aliases = Some [''date'', ''releaseyear''], Type = ''bogus'', MaxLength = 4,
             Split = None\<rparr>"
    by (simp add: unicode_lower_world_decoding k1 lower)
  then show ?thesis
    using mixed_run m a g k1 k2 by blast
qed

text \<open>
  C5. For every document the decoder leaves in \<^verbatim>\<open>mappings\<close>, every key of the
  resolved mapping and every alias stored in any of its entries is lower-case,
  that is, equal to its own lower-cased form. The Unicode tables of the Go
  runtime are a parameter; what is asked of them is that lower-casing a string
  that is not pure ASCII gives a string that lower-casing leaves alone. For pure
  ASCII strings this is proved (\<open>ToLower_ascii_idem\<close>).
\<close>

theorem resolved_keys_and_aliases_lower_case:
  assumes unicode: "\<And>s. \<not> list_all is_ascii s \<Longrightarrow>
      ToLower (unicode_lower w) (unicode_lower w s) = unicode_lower w s"
    and run: "parseMappings_func w = (Returns (normalized, conf), lg)"
    and entry: "normalized k = Some e"
  shows "TagName_ToLower (unicode_lower w) k = k \<and>
    (\<forall>a \<in> set (elems (Aliases e)). ToLower (unicode_lower w) a = a)"
proof -
  let ?u = "unicode_lower w"
  from run entry obtain k' v where kv: "k = TagName_ToLower ?u k'" "e = collected ?u v"
    using resolved_entry_origin parseMappings_func_ReturnsD by blast
  have idem: "\<And>s. ToLower ?u (ToLower ?u s) = ToLower ?u s"
    using unicode by (rule ToLower_idem)
  show ?thesis
    by (auto simp: kv TagName_ToLower_def idem elems_Aliases_collected)
qed

theorem resolved_keys_and_aliases_lower_case_witness:
  "\<exists>normalized lg.
     parseMappings_func (world_decoding mixed_conf) = (Returns (normalized, mixed_conf), lg) \<and>
     normalized ''year'' =
       Some \<lparr>Aliases = Some [''date'', ''releaseyear''], Type = ''bogus'', MaxLength = 4,
             Split = None\<rparr> \<and>
     TagName_ToLower ascii_tables ''year'' = ''year'' \<and>
     ToLower ascii_tables ''date'' = ''date'' \<and>
     ToLower ascii_tables ''releaseyear'' = ''releaseyear''"
proof -
  let ?w = "world_decoding mixed_conf"
  have tables: "\<And>s. \<not> list_all is_ascii s \<Longrightarrow>
      ToLower (unicode_lower ?w) (unicode_lower ?w s) = unicode_lower ?w s"
    by (simp add: unicode_lower_world_decoding ascii_tables_closed)
  have "TagName_ToLower (unicode_lower ?w) ''year'' = ''year'' \<and>
    (\<forall>a \<in> set (elems (Aliases \<lparr>Aliases = Some [''date'', ''releaseyear''], Type = ''bogus'',
        MaxLength = 4, Split = None\<rparr>)). ToLower (unicode_lower ?w) a = a)"
    using tables mixed_run mixed_year by (rule resolved_keys_and_aliases_lower_case)
  then show ?thesis
    using mixed_run mixed_year by (simp add: unicode_lower_world_decoding)
qed



text \<open>
  C7. In any sequence of accessor calls, in whatever world each call is made, two
  calls of the same accessor give equal answers; after the first call the
  process state (the cell of \<^verbatim>\<open>sync.OnceValues\<close> and the log) never changes
  again; and when the decoder does not panic in the first call, no call panics.
\<close>

theorem accessors_idempotent:
  "(\<forall>i j. i < length cs \<and> j < length cs \<and> fst (cs ! i) = fst (cs ! j) \<longrightarrow>
       fst (calls cs p) ! i = fst (calls cs p) ! j) \<and>
   (\<forall>a w rest. cs = (a, w) # rest \<longrightarrow> snd (calls cs p) = snd (call a w p)) \<and>
   (\<forall>a w rest. cs = (a, w) # rest \<and> once p = None \<and>
       yaml_decode w (fs_open w) \<noteq> Decode_panics \<longrightarrow> Panics \<notin> set (fst (calls cs p)))"
proof (intro conjI allI impI)
  fix i j
  assume ij: "i < length cs \<and> j < length cs \<and> fst (cs ! i) = fst (cs ! j)"
  obtain r where r: "fst (calls cs p) = map (\<lambda>(a, w). answer_of a r) cs"
    using calls_answers by blast
  show "fst (calls cs p) ! i = fst (calls cs p) ! j"
    using ij by (simp add: r case_prod_unfold)
next
  fix a w rest
  assume "cs = (a, w) # rest"
  then show "snd (calls cs p) = snd (call a w p)"
    by (simp only: calls_state)
next
  fix a w rest
  assume a: "cs = (a, w) # rest \<and> once p = None \<and> yaml_decode w (fs_open w) \<noteq> Decode_panics"
  then obtain r where r: "fst (calls cs p) = map (\<lambda>(a, w). answer_of a r) cs"
    and r0: "r = fst (parseMappings_func w)"
    using calls_answers [of cs p] by auto
  have "r \<noteq> Panics"
    using a by (simp add: r0 parseMappings_func_no_panic)
  then have np: "\<And>a. answer_of a r \<noteq> Panics"
    by (rule answer_of_no_panic)
  show "Panics \<notin> set (fst (calls cs p))"
  proof
    assume "Panics \<in> set (fst (calls cs p))"
    then obtain c where "Panics = (\<lambda>(a, w). answer_of a r) c"
      unfolding r by auto
    then have "answer_of (fst c) r = Panics"
      by (simp add: case_prod_unfold)
    with np show False by simp
  qed
qed

theorem accessors_idempotent_witness:
  "fst (calls [(Call_rolesConf, world_decoding mixed_conf), (Call_mappings, world_decoding example_conf),
               (Call_rolesConf, world_decoding example_conf)] initial) ! 0 =
   fst (calls [(Call_rolesConf, world_decoding mixed_conf), (Call_mappings, world_decoding example_conf),
               (Call_rolesConf, world_decoding example_conf)] initial) ! 2 \<and>
   fst (calls [(Call_rolesConf, world_decoding mixed_conf), (Call_mappings, world_decoding example_conf),
               (Call_rolesConf, world_decoding example_conf)] initial) ! 0 =
     Returns (Conf_answer mixed_roles) \<and>
   snd (calls [(Call_rolesConf, world_decoding mixed_conf), (Call_mappings, world_decoding example_conf),
               (Call_rolesConf, world_decoding example_conf)] initial) =
     snd (call Call_rolesConf (world_decoding mixed_conf) initial) \<and>
   Panics \<notin> set (fst (calls [(Call_rolesConf, world_decoding mixed_conf),
               (Call_mappings, world_decoding example_conf),
               (Call_rolesConf, world_decoding example_conf)] initial))"
proof -
  let ?cs = "[(Call_rolesConf, world_decoding mixed_conf), (Call_mappings, world_decoding example_conf),
               (Call_rolesConf, world_decoding example_conf)]"
  note inst = accessors_idempotent [of ?cs initial]
  have same: "fst (calls ?cs initial) ! 0 = fst (calls ?cs initial) ! 2"
    using inst [THEN conjunct1, rule_format, of 0 2] by simp
  have state: "snd (calls ?cs initial) = snd (call Call_rolesConf (world_decoding mixed_conf) initial)"
    using inst [THEN conjunct2, THEN conjunct1] by blast
  have "yaml_decode (world_decoding mixed_conf) (fs_open (world_decoding mixed_conf)) \<noteq> Decode_panics"
    by (simp add: world_decoding_def)
  then have returns: "Panics \<notin> set (fst (calls ?cs initial))"
    using inst [THEN conjunct2, THEN conjunct2] by (simp add: initial_def)
  have first: "fst (calls ?cs initial) ! 0 = Returns (Conf_answer mixed_roles)"
    by (simp only: calls_head nth_Cons_0 call_world_decoding fst_conv)
       (simp add: answer_of_def mixed_conf_def)
  from same first state returns show ?thesis by simp
qed

text \<open>
  C9. The type of an entry is not checked against any list of names. Every
  resolved entry has the type of the raw entry it was built from, and a nil
  split if that type is non-empty, the raw split otherwise; and every raw entry
  that is the last one visited with its lower-cased key is in the mapping in
  that form, whatever string its type is.
\<close>

theorem type_copied_unvalidated:
  assumes run: "parseMappings_func w = (Returns (normalized, conf), lg)"
  shows "(\<forall>k e. normalized k = Some e \<longrightarrow>
      (\<exists>k' v. (k', v) \<in> set (Main conf @ Additional conf) \<and>
         k = TagName_ToLower (unicode_lower w) k' \<and> Type e = Type v \<and>
         Split e = (if Type v \<noteq> [] then None else Split v))) \<and>
    (\<forall>k v xs ys. Main conf @ Additional conf = xs @ (k, v) # ys \<and>
        TagName_ToLower (unicode_lower w) k \<notin> TagName_ToLower (unicode_lower w) ` fst ` set ys \<longrightarrow>
      (\<exists>e. normalized (TagName_ToLower (unicode_lower w) k) = Some e \<and> Type e = Type v \<and>
         Split e = (if Type v \<noteq> [] then None else Split v)))"
proof -
  let ?u = "unicode_lower w"
  let ?all = "Main conf @ Additional conf"
  have n: "normalized = map_of (rev (lowered ?u ?all))"
    using run by (rule parseMappings_func_ReturnsD)
  have origin: "\<forall>k e. normalized k = Some e \<longrightarrow>
      (\<exists>k' v. (k', v) \<in> set ?all \<and> k = TagName_ToLower ?u k' \<and> Type e = Type v \<and>
         Split e = (if Type v \<noteq> [] then None else Split v))"
  proof (intro allI impI)
    fix k e
    assume "normalized k = Some e"
    then obtain k' v where "(k', v) \<in> set ?all" "k = TagName_ToLower ?u k'" "e = collected ?u v"
      unfolding n using resolved_entry_origin by blast
    then show "\<exists>k' v. (k', v) \<in> set ?all \<and> k = TagName_ToLower ?u k' \<and> Type e = Type v \<and>
         Split e = (if Type v \<noteq> [] then None else Split v)"
      using Type_collected Split_collected by blast
  qed
  have stored: "\<forall>k v xs ys. ?all = xs @ (k, v) # ys \<and>
        TagName_ToLower ?u k \<notin> TagName_ToLower ?u ` fst ` set ys \<longrightarrow>
      (\<exists>e. normalized (TagName_ToLower ?u k) = Some e \<and> Type e = Type v \<and>
         Split e = (if Type v \<noteq> [] then None else Split v))"
  proof (intro allI impI)
    fix k v xs ys
    assume a: "?all = xs @ (k, v) # ys \<and> TagName_ToLower ?u k \<notin> TagName_ToLower ?u ` fst ` set ys"
    from a have a1: "?all = xs @ (k, v) # ys" by (rule conjunct1)
    from a have a2: "TagName_ToLower ?u k \<notin> TagName_ToLower ?u ` fst ` set ys" by (rule conjunct2)
    from a1 a2 have "normalized (TagName_ToLower ?u k) = Some (collected ?u v)"
      unfolding n by (rule resolved_entry_last)
    then show "\<exists>e. normalized (TagName_ToLower ?u k) = Some e \<and> Type e = Type v \<and>
         Split e = (if Type v \<noteq> [] then None else Split v)"
      by (simp add: Type_collected Split_collected)
  qed
  from origin stored show ?thesis by (rule conjI)
qed

theorem type_copied_unvalidated_witness:
  "\<exists>normalized lg.
     parseMappings_func (world_decoding mixed_conf) = (Returns (normalized, mixed_conf), lg) \<and>
     Main mixed_conf @ Additional mixed_conf =
       mixed_main @ (''YEAR'', \<lparr>Aliases = Some [''Date'', ''ReleaseYear''], Type = ''bogus'',
          MaxLength = 4, Split = Some ['';'']\<rparr>) # tl mixed_additional \<and>
     TagName_ToLower ascii_tables ''YEAR'' = ''year'' \<and>
     (\<exists>e. normalized ''year'' = Some e \<and> Type e = ''bogus'' \<and> Split e = None) \<and>
     (\<exists>k' v. (k', v) \<in> set (Main mixed_conf @ Additional mixed_conf) \<and>
        ''year'' = TagName_ToLower ascii_tables k' \<and> ''bogus'' = Type v)"
proof -
  let ?w = "world_decoding mixed_conf"
  let ?n = "map_of (rev (lowered ascii_tables (mixed_main @ mixed_additional)))"
  let ?v = "\<lparr>Aliases = Some [''Date'', ''ReleaseYear''], Type = ''bogus'',
          MaxLength = 4, Split = Some ['';'']\<rparr>"
  let ?e = "\<lparr>Aliases = Some [''date'', ''releaseyear''], Type = ''bogus'', MaxLength = 4,
           Split = None\<rparr>"
  have key: "TagName_ToLower ascii_tables ''YEAR'' = ''year''"
    by code_simp
  have whole: "Main mixed_conf @ Additional mixed_conf =
      mixed_main @ (''YEAR'', ?v) # tl mixed_additional"
    by (simp add: mixed_conf_def mixed_additional_def)
  have last: "TagName_ToLower ascii_tables ''YEAR''
      \<notin> TagName_ToLower ascii_tables ` fst ` set (tl mixed_additional)"
    by code_simp
  note inst = type_copied_unvalidated [OF mixed_run]
  from inst mixed_year
  have origin: "\<exists>k' v. (k', v) \<in> set (Main mixed_conf @ Additional mixed_conf) \<and>
        ''year'' = TagName_ToLower (unicode_lower ?w) k' \<and> Type ?e = Type v \<and>
         Split ?e = (if Type v \<noteq> [] then None else Split v)"
    by blast
  from inst whole last
  have "\<exists>e. ?n (TagName_ToLower (unicode_lower ?w) ''YEAR'') = Some e \<and> Type e = Type ?v \<and>
         Split e = (if Type ?v \<noteq> [] then None else Split ?v)"
    unfolding unicode_lower_world_decoding by blast
  then have stored: "\<exists>e. ?n ''year'' = Some e \<and> Type e = ''bogus'' \<and> Split e = None"
    by (simp add: unicode_lower_world_decoding key)
  from origin have origin': "\<exists>k' v. (k', v) \<in> set (Main mixed_conf @ Additional mixed_conf) \<and>
        ''year'' = TagName_ToLower ascii_tables k' \<and> ''bogus'' = Type v"
    unfolding unicode_lower_world_decoding by auto
  show ?thesis
    using mixed_run whole key stored origin' by blast
qed

text \<open>
  C10 (as amended). When the keys of each tier have pairwise distinct
  lower-cased forms, every run on the same document (the same entries in each
  tier, visited in any order) resolves to the same mapping. When a tier holds
  two keys with the same lower-cased form whose collected entries differ, and,
  for the main tier, the additional tier does not hold that lower-cased key,
  some other run on the same document resolves to a different mapping.
\<close>

theorem iteration_order_and_key_casing:
  assumes run: "parseMappings_func w = (Returns (normalized, conf), lg)"
  shows "(\<forall>w' normalized' conf' lg'.
        parseMappings_func w' = (Returns (normalized', conf'), lg') \<and>
        unicode_lower w' = unicode_lower w \<and>
        mset (Main conf') = mset (Main conf) \<and>
        mset (Additional conf') = mset (Additional conf) \<and>
        distinct (map (TagName_ToLower (unicode_lower w) \<circ> fst) (Main conf)) \<and>
        distinct (map (TagName_ToLower (unicode_lower w) \<circ> fst) (Additional conf))
        \<longrightarrow> normalized' = normalized) \<and>
    (\<forall>tier k1 v1 k2 v2.
        (tier = Additional conf \<or>
         tier = Main conf \<and>
           TagName_ToLower (unicode_lower w) k1
             \<notin> TagName_ToLower (unicode_lower w) ` fst ` set (Additional conf)) \<and>
        (k1, v1) \<in> set tier \<and> (k2, v2) \<in> set tier \<and> k1 \<noteq> k2 \<and>
        TagName_ToLower (unicode_lower w) k1 = TagName_ToLower (unicode_lower w) k2 \<and>
        collected (unicode_lower w) v1 \<noteq> collected (unicode_lower w) v2
        \<longrightarrow> (\<exists>w' normalized' conf' lg'.
              parseMappings_func w' = (Returns (normalized', conf'), lg') \<and>
              unicode_lower w' = unicode_lower w \<and>
              mset (Main conf') = mset (Main conf) \<and>
              mset (Additional conf') = mset (Additional conf) \<and>
              Roles conf' = Roles conf \<and> Artists conf' = Artists conf \<and>
              normalized' \<noteq> normalized))"
proof (intro conjI allI impI)
  fix w' normalized' conf' lg'
  let ?u = "unicode_lower w"
  assume a: "parseMappings_func w' = (Returns (normalized', conf'), lg') \<and>
        unicode_lower w' = ?u \<and>
        mset (Main conf') = mset (Main conf) \<and>
        mset (Additional conf') = mset (Additional conf) \<and>
        distinct (map (TagName_ToLower ?u \<circ> fst) (Main conf)) \<and>
        distinct (map (TagName_ToLower ?u \<circ> fst) (Additional conf))"
  have n: "normalized = map_of (rev (lowered ?u (Main conf @ Additional conf)))"
    using run by (rule parseMappings_func_ReturnsD)
  from a have "parseMappings_func w' = (Returns (normalized', conf'), lg')"
    by (rule conjunct1)
  then have "normalized' = map_of (rev (lowered (unicode_lower w') (Main conf' @ Additional conf')))"
    by (rule parseMappings_func_ReturnsD)
  then have n': "normalized' = map_of (rev (lowered ?u (Main conf' @ Additional conf')))"
    using a by simp
  have "map_of (rev (lowered ?u (Main conf @ Additional conf)))
      = map_of (rev (lowered ?u (Main conf' @ Additional conf')))"
    using a by (intro resolved_permuted) simp_all
  then show "normalized' = normalized"
    by (simp add: n n')
next
  fix tier k1 v1 k2 v2
  let ?u = "unicode_lower w"
  assume a: "(tier = Additional conf \<or>
         tier = Main conf \<and>
           TagName_ToLower ?u k1 \<notin> TagName_ToLower ?u ` fst ` set (Additional conf)) \<and>
        (k1, v1) \<in> set tier \<and> (k2, v2) \<in> set tier \<and> k1 \<noteq> k2 \<and>
        TagName_ToLower ?u k1 = TagName_ToLower ?u k2 \<and>
        collected ?u v1 \<noteq> collected ?u v2"
  have n: "normalized = map_of (rev (lowered ?u (Main conf @ Additional conf)))"
    using run by (rule parseMappings_func_ReturnsD)
  from a have m1: "(k1, v1) \<in> set tier" and m2: "(k2, v2) \<in> set tier"
    and same: "TagName_ToLower ?u k1 = TagName_ToLower ?u k2"
    and differ: "collected ?u v1 \<noteq> collected ?u v2"
    by simp_all
  from a consider (additional) "tier = Additional conf"
    | (main) "tier = Main conf"
        "TagName_ToLower ?u k1 \<notin> TagName_ToLower ?u ` fst ` set (Additional conf)"
    by blast
  then have "\<exists>m' a'. mset m' = mset (Main conf) \<and> mset a' = mset (Additional conf) \<and>
      map_of (rev (lowered ?u (m' @ a'))) \<noteq> normalized"
  proof cases
    case additional
    have "TagName_ToLower ?u k1 \<notin> TagName_ToLower ?u ` fst ` set []"
      by simp
    from some_order_differs [OF m1 m2 same differ this, of "Main conf"]
    obtain t' where "mset t' = mset tier"
      "map_of (rev (lowered ?u (Main conf @ t' @ [])))
         \<noteq> map_of (rev (lowered ?u (Main conf @ tier @ [])))"
      by blast
    then have "mset (Main conf) = mset (Main conf) \<and> mset t' = mset (Additional conf) \<and>
      map_of (rev (lowered ?u (Main conf @ t'))) \<noteq> normalized"
      by (simp add: n additional)
    then show ?thesis by blast
  next
    case main
    from some_order_differs [OF m1 m2 same differ main(2), of "[]"]
    obtain t' where "mset t' = mset tier"
      "map_of (rev (lowered ?u ([] @ t' @ Additional conf)))
         \<noteq> map_of (rev (lowered ?u ([] @ tier @ Additional conf)))"
      by blast
    then have "mset t' = mset (Main conf) \<and> mset (Additional conf) = mset (Additional conf) \<and>
      map_of (rev (lowered ?u (t' @ Additional conf))) \<noteq> normalized"
      by (simp add: n main(1))
    then show ?thesis by blast
  qed
  then obtain m' a' where "mset m' = mset (Main conf)" "mset a' = mset (Additional conf)"
      "map_of (rev (lowered ?u (m' @ a'))) \<noteq> normalized"
    by blast
  then show "\<exists>w' normalized' conf' lg'.
              parseMappings_func w' = (Returns (normalized', conf'), lg') \<and>
              unicode_lower w' = ?u \<and>
              mset (Main conf') = mset (Main conf) \<and>
              mset (Additional conf') = mset (Additional conf) \<and>
              Roles conf' = Roles conf \<and> Artists conf' = Artists conf \<and>
              normalized' \<noteq> normalized"
    by (rule rerun_exists)
qed

theorem iteration_order_and_key_casing_witness:
  "fst (parseMappings_func (world_decoding example_conf)) =
     Returns (map_of (rev (lowered ascii_tables (example_main @ example_additional))), example_conf) \<and>
   distinct (map (TagName_ToLower ascii_tables \<circ> fst) example_main) \<and>
   distinct (map (TagName_ToLower ascii_tables \<circ> fst) example_additional) \<and>
   fst (parseMappings_func (world_decoding (example_conf\<lparr>Main := rev example_main\<rparr>))) =
     Returns (map_of (rev (lowered ascii_tables (example_main @ example_additional))),
              example_conf\<lparr>Main := rev example_main\<rparr>) \<and>
   fst (parseMappings_func (world_decoding (main_only clash_main))) =
     Returns (map_of (rev (lowered ascii_tables
                (Main (main_only clash_main) @ Additional (main_only clash_main)))),
              main_only clash_main) \<and>
   (''Year'', \<lparr>Aliases = None, Type = ''integer'', MaxLength = 4, Split = None\<rparr>)
     \<in> set clash_main \<and>
   (''year'', zero_tagConf) \<in> set clash_main \<and>
   TagName_ToLower ascii_tables ''Year'' = TagName_ToLower ascii_tables ''year'' \<and>
   (\<exists>w' normalized' conf' lg'.
      parseMappings_func w' = (Returns (normalized', conf'), lg') \<and>
      unicode_lower w' = unicode_lower (world_decoding (main_only clash_main)) \<and>
      mset (Main conf') = mset (Main (main_only clash_main)) \<and>
      mset (Additional conf') = mset (Additional (main_only clash_main)) \<and>
      Roles conf' = Roles (main_only clash_main) \<and>
      Artists conf' = Artists (main_only clash_main) \<and>
      normalized' \<noteq> map_of (rev (lowered ascii_tables
                (Main (main_only clash_main) @ Additional (main_only clash_main)))))"
proof -
  let ?c = "example_conf"
  let ?c' = "example_conf\<lparr>Main := rev example_main\<rparr>"
  let ?n = "map_of (rev (lowered ascii_tables (Main ?c @ Additional ?c)))"
  let ?n' = "map_of (rev (lowered ascii_tables (Main ?c' @ Additional ?c')))"
  have d: "distinct (map (TagName_ToLower ascii_tables \<circ> fst) example_main)"
      "distinct (map (TagName_ToLower ascii_tables \<circ> fst) example_additional)"
    by (rule example_keys_distinct)+
  have same: "?n' = ?n"
    by (rule iteration_order_and_key_casing [OF world_decoding_run [of ?c], THEN conjunct1,
          rule_format, of "world_decoding ?c'" ?n' ?c'])
       (simp add: d world_decoding_run unicode_lower_world_decoding example_conf_def)
  have run: "fst (parseMappings_func (world_decoding ?c)) =
      Returns (map_of (rev (lowered ascii_tables (example_main @ example_additional))), ?c)"
    by (simp add: world_decoding_run example_conf_def)
  have "fst (parseMappings_func (world_decoding ?c')) = Returns (?n', ?c')"
    by (simp only: world_decoding_run fst_conv)
  then have run': "fst (parseMappings_func (world_decoding ?c')) =
      Returns (map_of (rev (lowered ascii_tables (example_main @ example_additional))), ?c')"
    unfolding same by (simp add: example_conf_def)
  let ?k = "main_only clash_main"
  let ?v1 = "\<lparr>Aliases = None, Type = ''integer'', MaxLength = 4, Split = None\<rparr>"
  let ?m = "map_of (rev (lowered ascii_tables (Main ?k @ Additional ?k)))"
  have keys: "TagName_ToLower ascii_tables ''Year'' = TagName_ToLower ascii_tables ''year''"
    by code_simp
  have members: "(''Year'', ?v1) \<in> set clash_main" "(''year'', zero_tagConf) \<in> set clash_main"
    by (simp_all add: clash_main_def)
  have differ: "collected ascii_tables ?v1 \<noteq> collected ascii_tables zero_tagConf"
    by (simp add: collected_def zero_tagConf_def)
  have other: "\<exists>w' normalized' conf' lg'.
         parseMappings_func w' = (Returns (normalized', conf'), lg') \<and>
         unicode_lower w' = unicode_lower (world_decoding ?k) \<and>
         mset (Main conf') = mset (Main ?k) \<and> mset (Additional conf') = mset (Additional ?k) \<and>
         Roles conf' = Roles ?k \<and> Artists conf' = Artists ?k \<and>
         normalized' \<noteq> ?m"
    by (rule iteration_order_and_key_casing [OF world_decoding_run [of ?k], THEN conjunct2,
          rule_format, of "Main ?k" "''Year''" ?v1 "''year''" zero_tagConf])
       (simp add: members keys differ unicode_lower_world_decoding main_only_def)
  have run_clash: "fst (parseMappings_func (world_decoding ?k)) = Returns (?m, ?k)"
    by (simp only: world_decoding_run fst_conv)
  from run d run' run_clash members keys other show ?thesis
    by (intro conjI)
qed

text \<open>
  C10 as stated fails: a tier can hold two keys with the same lower-cased form
  and still resolve to one mapping in every order, here because both keys carry
  the same entry.
\<close>

theorem casing_clash_with_one_result:
  "''Year'' \<noteq> ''year'' \<and>
   TagName_ToLower ascii_tables ''Year'' = TagName_ToLower ascii_tables ''year'' \<and>
   set twin_main = {(''Year'', zero_tagConf), (''year'', zero_tagConf)} \<and>
   fst (mappings (world_decoding (main_only twin_main)) initial) =
     Returns [''year'' \<mapsto> zero_tagConf] \<and>
   \<not> (\<exists>m'. mset m' = mset twin_main \<and>
          fst (mappings (world_decoding (main_only m')) initial)
            \<noteq> fst (mappings (world_decoding (main_only twin_main)) initial))"
proof -
  have keys: "TagName_ToLower ascii_tables ''Year'' = TagName_ToLower ascii_tables ''year''"
    by code_simp
  have rev_twin: "lowered ascii_tables (rev twin_main) = lowered ascii_tables twin_main"
    by (simp add: lowered_def twin_main_def keys)
  have result: "fst (mappings (world_decoding (main_only twin_main)) initial) =
     Returns [''year'' \<mapsto> zero_tagConf]"
    by (simp add: mappings_world_decoding main_only_def lowered_twin)
  have "fst (mappings (world_decoding (main_only m')) initial)
      = fst (mappings (world_decoding (main_only twin_main)) initial)"
    if "mset m' = mset twin_main" for m'
  proof -
    from that have "m' = twin_main \<or> m' = rev twin_main"
      unfolding twin_main_def using mset_pair by fastforce
    then show ?thesis
      by (auto simp: mappings_world_decoding main_only_def rev_twin)
  qed
  then have "\<not> (\<exists>m'. mset m' = mset twin_main \<and>
          fst (mappings (world_decoding (main_only m')) initial)
            \<noteq> fst (mappings (world_decoding (main_only twin_main)) initial))"
    by blast
  with keys result show ?thesis
    by (simp add: twin_main_def)
qed

end
